theory Spec2Isabelle
  imports Main "HOL-Library.Sublist"
begin

section \<open>Values and schemas\<close>

text \<open>
  The values that flow between the entrypoint, the nodes and the executor are JavaScript
  values. Numbers are restricted to integers, which is all the counters of the scenarios
  need. An object is its list of own properties.
\<close>

datatype jsval =
    JUndefined
  | JNull
  | JBool bool
  | JNum int
  | JStr string
  | JArr "jsval list"
  | JObj "(string \<times> jsval) list"

text \<open>
  Reading a data property \<open>v.k\<close>: a property the object does not have reads as
  \<open>undefined\<close>. (The keys read from a value here are \<open>state\<close>, \<open>nextNode\<close>
  and those of the example schemas; none of them is a member of \<open>Object.prototype\<close>.)
\<close>

fun getProp :: "jsval \<Rightarrow> string \<Rightarrow> jsval" where
  "getProp (JObj fs) k = (case map_of fs k of Some v \<Rightarrow> v | None \<Rightarrow> JUndefined)"
| "getProp v k = JUndefined"

text \<open>
  The executor only ever reads \<open>safeParse(v).success\<close>, so a schema is the predicate
  telling which values it accepts. \<open>z.any()\<close> accepts every value, \<open>undefined\<close>
  included; \<open>z.string()\<close> accepts strings only.
\<close>

type_synonym schema = "jsval \<Rightarrow> bool"

definition z_any :: schema where
  "z_any v = True"

fun z_string :: schema where
  "z_string (JStr s) = True"
| "z_string v = False"

text \<open>
  \<open>z.object(shape)\<close> accepts an object when every member schema of the shape accepts
  the value read under its key, \<open>undefined\<close> when the key is missing (so a member
  whose schema accepts \<open>undefined\<close> may be absent). Keys outside the shape are ignored.
\<close>

fun z_object :: "(string \<times> schema) list \<Rightarrow> schema" where
  "z_object shape (JObj fs) = list_all (\<lambda>(k, s). s (getProp (JObj fs) k)) shape"
| "z_object shape v = False"

fun z_number :: schema where
  "z_number (JNum n) = True"
| "z_number v = False"

definition z_literal :: "jsval \<Rightarrow> schema" where
  "z_literal lit v = (v = lit)"

definition StateReturnSchema :: "schema \<Rightarrow> schema" where
  "StateReturnSchema stateSchema =
     z_object [(''state'', stateSchema), (''nextNode'', z_string)]"

definition FlowOutputSchema :: "schema \<Rightarrow> schema \<Rightarrow> schema" where
  "FlowOutputSchema stateSchema outputSchema v =
     (StateReturnSchema stateSchema v \<or> outputSchema v)"

text \<open>
  \<open>safeParse\<close> also hands back the parsed \<open>data\<close>, which the executor never reads.
  To compare it with what the executor adopts, here are the same schemas with their data:
  \<open>None\<close> when the value is rejected, the parsed value otherwise. \<open>z.object\<close> strips
  the keys that are not in its shape, and keeps a key of the shape when it is present in the
  value or its parsed member is not \<open>undefined\<close>. \<open>accepts p\<close> is the
  \<open>success\<close> of such a parse.
\<close>

type_synonym parser = "jsval \<Rightarrow> jsval option"

definition p_any :: parser where
  "p_any v = Some v"

fun p_string :: parser where
  "p_string (JStr s) = Some (JStr s)"
| "p_string v = None"

fun p_number :: parser where
  "p_number (JNum n) = Some (JNum n)"
| "p_number v = None"

fun p_fields :: "(string \<times> parser) list \<Rightarrow> (string \<times> jsval) list \<Rightarrow> (string \<times> jsval) list option" where
  "p_fields [] fs = Some []"
| "p_fields ((k, p) # shape) fs =
     (case p (getProp (JObj fs) k) of
        None \<Rightarrow> None
      | Some d \<Rightarrow>
          (case p_fields shape fs of
             None \<Rightarrow> None
           | Some ds \<Rightarrow> Some (if d = JUndefined \<and> map_of fs k = None then ds else (k, d) # ds)))"

fun p_object :: "(string \<times> parser) list \<Rightarrow> parser" where
  "p_object shape (JObj fs) = map_option JObj (p_fields shape fs)"
| "p_object shape v = None"

definition StateReturnData :: "parser \<Rightarrow> parser" where
  "StateReturnData stateParser = p_object [(''state'', stateParser), (''nextNode'', p_string)]"

definition accepts :: "parser \<Rightarrow> schema" where
  "accepts p v = (p v \<noteq> None)"

text \<open>\<open>s ?? z.any()\<close> for an optional schema of the configuration.\<close>

fun orAny :: "schema option \<Rightarrow> schema" where
  "orAny None = z_any"
| "orAny (Some s) = s"

text \<open>The string behind a value that \<open>z.string()\<close> has accepted.\<close>

fun stringOf :: "jsval \<Rightarrow> string" where
  "stringOf (JStr s) = s"
| "stringOf v = []"

section \<open>Graph definition, flows and the node registry\<close>

record config =
  name :: string
  stateSchema :: "schema option"
  inputSchema :: "schema option"
  streamSchema :: "schema option"
  outputSchema :: "schema option"

text \<open>
  What \<open>streamFlow\<close> observes of running a flow on an input: the chunks it streams, then
  either the value it throws (\<open>Inl\<close>) or its final result (\<open>Inr\<close>).
\<close>

type_synonym behaviour = "jsval \<Rightarrow> jsval list \<times> (jsval + jsval)"

record flow =
  name :: string
  run :: behaviour

text \<open>What the entrypoint returns: \<open>{state, nextNode}\<close>.\<close>

record stateReturn =
  state :: jsval
  nextNode :: string

type_synonym entrypoint = "jsval \<Rightarrow> jsval + stateReturn"

text \<open>\<open>beforeFinish(state, output)\<close>: \<open>Some e\<close> when it throws \<open>e\<close>.\<close>

type_synonym hook = "jsval \<Rightarrow> jsval \<Rightarrow> jsval option"

text \<open>
  The errors of an invocation and of the registration calls. The first three are the
  \<open>Error\<close> objects this code creates itself; \<open>Thrown\<close> is a value thrown by the
  entrypoint, by a node or by the hook, which passes through unchanged.
\<close>

datatype error =
    NodeAlreadyExists string
  | NodeDoesNotExist string
  | InvalidOutput string
  | Thrown jsval

fun message :: "error \<Rightarrow> string" where
  "message (NodeAlreadyExists n) = ''Node '' @ n @ '' already exists''"
| "message (NodeDoesNotExist n) = ''Node '' @ n @ '' does not exist''"
| "message (InvalidOutput n) =
     ''Invalid output: Output of node '' @ n @ '' does not satisfy StateSchema or OutputSchema''"
| "message (Thrown v) = []"

text \<open>
  The registry \<open>nodes\<close> is an object literal \<open>{}\<close> used as a dictionary: its own
  properties are the registered flows. Reading \<open>nodes[k]\<close> follows the prototype
  chain, so for a key that is not an own property but is a member of
  \<open>Object.prototype\<close> the read gives that built-in member (a function or, for
  \<open>__proto__\<close>, the prototype object: truthy in every case), not \<open>undefined\<close>.
\<close>

type_synonym registry = "string \<rightharpoonup> flow"

definition objectPrototypeKeys :: "string list" where
  "objectPrototypeKeys =
     [''constructor'', ''__defineGetter__'', ''__defineSetter__'', ''hasOwnProperty'',
      ''__lookupGetter__'', ''__lookupSetter__'', ''isPrototypeOf'',
      ''propertyIsEnumerable'', ''toString'', ''valueOf'', ''__proto__'',
      ''toLocaleString'']"

datatype member = Own flow | Builtin string

text \<open>\<open>nodes[k]\<close>; \<open>None\<close> is \<open>undefined\<close>, the only falsy outcome.\<close>

definition nodes_get :: "registry \<Rightarrow> string \<Rightarrow> member option" where
  "nodes_get nodes k =
     (case nodes k of
        Some f \<Rightarrow> Some (Own f)
      | None \<Rightarrow> if k \<in> set objectPrototypeKeys then Some (Builtin k) else None)"

text \<open>
  \<open>addNode\<close> and \<open>removeNode\<close> return the registry they leave behind, or the error
  they throw (which leaves the registry as it was).
\<close>

definition addNode :: "flow \<Rightarrow> registry \<Rightarrow> error + registry" where
  "addNode f nodes =
     (if nodes_get nodes (flow.name f) \<noteq> None
      then Inl (NodeAlreadyExists (flow.name f))
      else Inr (nodes(flow.name f \<mapsto> f)))"

definition removeNode :: "string \<Rightarrow> registry \<Rightarrow> error + registry" where
  "removeNode k nodes =
     (if nodes_get nodes k \<noteq> None
      then Inl (NodeAlreadyExists k)
      else Inr (nodes(k := None)))"

section \<open>The executor\<close>

text \<open>
  \<open>streamFlow(nodes[currentNode], state)\<close>. For a registered flow it runs the flow.
  What the host runtime does when it is handed a built-in member of
  \<open>Object.prototype\<close> in place of a flow is not decided by this code: it is the
  parameter \<open>host\<close>.
\<close>

fun streamFlow :: "(string \<Rightarrow> behaviour) \<Rightarrow> member \<Rightarrow> behaviour" where
  "streamFlow host (Own f) = run f"
| "streamFlow host (Builtin k) = host k"

text \<open>
  The observable steps of an invocation, in order: \<open>NextNode n\<close> when \<open>currentNode\<close>
  is assigned (from the entrypoint or from a Continuation), \<open>Dispatch n s\<close> when
  \<open>streamFlow\<close> is called on \<open>nodes[n]\<close> with state \<open>s\<close>, \<open>Chunk c\<close> when a streamed
  chunk is handed to the caller's callback, \<open>BeforeFinish s v\<close> when the hook is called.
\<close>

datatype event =
    NextNode string
  | Dispatch string jsval
  | Chunk jsval
  | BeforeFinish jsval jsval

text \<open>
  The \<open>while (true)\<close> loop. It has no bound of its own, so the model counts the
  iterations it may still make: with none left the outcome is \<open>None\<close>, the invocation
  has not settled. \<open>cb\<close> tells whether the caller gave a streaming callback.
\<close>

fun traverse ::
  "nat \<Rightarrow> config \<Rightarrow> hook option \<Rightarrow> registry \<Rightarrow> (string \<Rightarrow> behaviour) \<Rightarrow> bool \<Rightarrow>
   jsval \<Rightarrow> string \<Rightarrow> event list \<times> (error + jsval) option" where
  "traverse 0 cfg beforeFinish nodes host cb st currentNode = ([], None)"
| "traverse (Suc fuel) cfg beforeFinish nodes host cb st currentNode =
     (case nodes_get nodes currentNode of
        None \<Rightarrow> ([], Some (Inl (NodeDoesNotExist currentNode)))
      | Some m \<Rightarrow>
          (case streamFlow host m st of
             (chunks, output) \<Rightarrow>
               let evs = Dispatch currentNode st # (if cb then map Chunk chunks else []) in
               (case output of
                  Inl e \<Rightarrow> (evs, Some (Inl (Thrown e)))
                | Inr result \<Rightarrow>
                    if StateReturnSchema (orAny (stateSchema cfg)) result
                    then
                      (case traverse fuel cfg beforeFinish nodes host cb
                              (getProp result ''state'') (stringOf (getProp result ''nextNode'')) of
                         (evs', out) \<Rightarrow>
                           (evs @ NextNode (stringOf (getProp result ''nextNode'')) # evs', out))
                    else if orAny (outputSchema cfg) result
                    then
                      (case beforeFinish of
                         None \<Rightarrow> (evs, Some (Inr result))
                       | Some h \<Rightarrow>
                           (case h st result of
                              Some e \<Rightarrow> (evs @ [BeforeFinish st result], Some (Inl (Thrown e)))
                            | None \<Rightarrow> (evs @ [BeforeFinish st result], Some (Inr result))))
                    else (evs, Some (Inl (InvalidOutput currentNode))))))"

text \<open>The function given to \<open>defineFlow\<close>: the entrypoint, then the loop.\<close>

definition executor ::
  "nat \<Rightarrow> config \<Rightarrow> entrypoint \<Rightarrow> hook option \<Rightarrow> registry \<Rightarrow> (string \<Rightarrow> behaviour) \<Rightarrow>
   bool \<Rightarrow> jsval \<Rightarrow> event list \<times> (error + jsval) option" where
  "executor fuel cfg entry beforeFinish nodes host cb input =
     (case entry input of
        Inl e \<Rightarrow> ([], Some (Inl (Thrown e)))
      | Inr r \<Rightarrow>
          (case traverse fuel cfg beforeFinish nodes host cb (state r) (nextNode r) of
             (evs, out) \<Rightarrow> (NextNode (nextNode r) # evs, out)))"

section \<open>Reading a trace\<close>

text \<open>
  The nodes handed to \<open>streamFlow\<close> with their input states, the values assigned to
  \<open>currentNode\<close>, and the calls of the hook, each in the order of the trace.
\<close>

fun dispatches :: "event list \<Rightarrow> (string \<times> jsval) list" where
  "dispatches [] = []"
| "dispatches (Dispatch n s # es) = (n, s) # dispatches es"
| "dispatches (e # es) = dispatches es"

fun nextNodes :: "event list \<Rightarrow> string list" where
  "nextNodes [] = []"
| "nextNodes (NextNode n # es) = n # nextNodes es"
| "nextNodes (e # es) = nextNodes es"

fun hookCalls :: "event list \<Rightarrow> (jsval \<times> jsval) list" where
  "hookCalls [] = []"
| "hookCalls (BeforeFinish s v # es) = (s, v) # hookCalls es"
| "hookCalls (e # es) = hookCalls es"

section \<open>Example graphs\<close>

text \<open>
  A graph without declared schemas, and the counting graph: state \<open>{count: number}\<close>,
  output \<open>{done: true}\<close>.
\<close>

definition anyConfig :: config where
  "anyConfig = \<lparr>config.name = ''any'', stateSchema = None, inputSchema = None,
     streamSchema = None, outputSchema = None\<rparr>"

definition countConfig :: config where
  "countConfig = \<lparr>config.name = ''count'',
     stateSchema = Some (z_object [(''count'', z_number)]), inputSchema = None,
     streamSchema = None,
     outputSchema = Some (z_object [(''done'', z_literal (JBool True))])\<rparr>"

text \<open>An entrypoint that ignores its input and starts at node \<open>n\<close> with state \<open>s\<close>.\<close>

definition startAt :: "string \<Rightarrow> jsval \<Rightarrow> entrypoint" where
  "startAt n s input = Inr \<lparr>state = s, nextNode = n\<rparr>"

definition countState :: "int \<Rightarrow> jsval" where
  "countState c = JObj [(''count'', JNum c)]"

definition doneValue :: jsval where
  "doneValue = JObj [(''done'', JBool True)]"


text \<open>A node that returns the same value \<open>v\<close> on every state, after streaming \<open>cs\<close>.\<close>

definition constFlow :: "string \<Rightarrow> jsval list \<Rightarrow> jsval \<Rightarrow> flow" where
  "constFlow n cs v = \<lparr>flow.name = n, run = (\<lambda>s. (cs, Inr v))\<rparr>"

text \<open>A node that hands its state on, unchanged, to the node \<open>target\<close>.\<close>

definition gotoFlow :: "string \<Rightarrow> string \<Rightarrow> flow" where
  "gotoFlow n target = \<lparr>flow.name = n,
     run = (\<lambda>s. ([], Inr (JObj [(''state'', s), (''nextNode'', JStr target)])))\<rparr>"

text \<open>
  A hook that returns normally, a hook that always throws, and a host runtime that rejects
  whatever is not a flow.
\<close>

definition quietHook :: hook where
  "quietHook s v = None"

definition throwingHook :: hook where
  "throwingHook s v = Some (JStr ''beforeFinish failed'')"

definition rejectingHost :: "string \<Rightarrow> behaviour" where
  "rejectingHost k s = ([], Inl (JStr ''TypeError''))"

text \<open>The registries of the examples, as \<open>addNode\<close> builds them.\<close>

definition selfLoopNodes :: registry where
  "selfLoopNodes = [''loop'' \<mapsto> gotoFlow ''loop'' ''loop'']"

definition badNodes :: registry where
  "badNodes = [''bad'' \<mapsto> constFlow ''bad'' [] (JObj [(''foo'', JNum 1)])]"

definition deadEndNodes :: registry where
  "deadEndNodes = [''a'' \<mapsto> gotoFlow ''a'' ''zzz'']"

definition lastNodes :: registry where
  "lastNodes = [''last'' \<mapsto> constFlow ''last'' [] doneValue]"


definition twoNodes :: registry where
  "twoNodes = [''a'' \<mapsto> gotoFlow ''a'' ''b'', ''b'' \<mapsto> constFlow ''b'' [JStr ''chunk''] doneValue]"

text \<open>
  Node \<open>a\<close> continues to \<open>b\<close> with a state that carries a key the state schema of
  the counting graph does not know.
\<close>

definition stripNodes :: registry where
  "stripNodes =
     [''a'' \<mapsto> constFlow ''a'' []
        (JObj [(''state'', JObj [(''count'', JNum 1), (''extra'', JNum 2)]),
               (''nextNode'', JStr ''b'')]),
      ''b'' \<mapsto> constFlow ''b'' [] doneValue]"

section \<open>The loop, one iteration at a time\<close>

text \<open>The readings of a trace distribute over its parts; chunks and hook calls are no dispatches.\<close>

lemma dispatches_append: "dispatches (xs @ ys) = dispatches xs @ dispatches ys"
  by (induction xs rule: dispatches.induct) auto

lemma nextNodes_append: "nextNodes (xs @ ys) = nextNodes xs @ nextNodes ys"
  by (induction xs rule: nextNodes.induct) auto

lemma hookCalls_append: "hookCalls (xs @ ys) = hookCalls xs @ hookCalls ys"
  by (induction xs rule: hookCalls.induct) auto

lemma dispatches_chunks: "dispatches (if cb then map Chunk cs else []) = []"
  by (induction cs) auto

lemma nextNodes_chunks: "nextNodes (if cb then map Chunk cs else []) = []"
  by (induction cs) auto

lemma hookCalls_chunks: "hookCalls (if cb then map Chunk cs else []) = []"
  by (induction cs) auto

lemma dispatches_hook:
  "dispatches (case bf of None \<Rightarrow> [] | Some h \<Rightarrow> [BeforeFinish s v]) = []"
  by (cases bf) auto

lemma nextNodes_hook:
  "nextNodes (case bf of None \<Rightarrow> [] | Some h \<Rightarrow> [BeforeFinish s v]) = []"
  by (cases bf) auto

lemma hookCalls_hook:
  "hookCalls (case bf of None \<Rightarrow> [] | Some h \<Rightarrow> [BeforeFinish s v]) =
     (case bf of None \<Rightarrow> [] | Some h \<Rightarrow> [(s, v)])"
  by (cases bf) auto

lemmas proj_simps = dispatches_append nextNodes_append hookCalls_append
  dispatches_chunks nextNodes_chunks hookCalls_chunks
  dispatches_hook nextNodes_hook hookCalls_hook

text \<open>Reading the registry.\<close>

lemma nodes_get_own: "nodes k = Some f \<Longrightarrow> nodes_get nodes k = Some (Own f)"
  by (simp add: nodes_get_def)

lemma nodes_get_plain:
  "nodes k = None \<Longrightarrow> k \<notin> set objectPrototypeKeys \<Longrightarrow> nodes_get nodes k = None"
  by (simp add: nodes_get_def)

lemma nodes_get_inherited:
  "nodes k = None \<Longrightarrow> k \<in> set objectPrototypeKeys \<Longrightarrow> nodes_get nodes k = Some (Builtin k)"
  by (simp add: nodes_get_def)

lemma StateReturnSchema_iff:
  "StateReturnSchema S v =
     (\<exists>fs. v = JObj fs \<and> S (getProp v ''state'') \<and> z_string (getProp v ''nextNode''))"
  by (cases v) (simp_all add: StateReturnSchema_def)

lemma StateReturnSchema_nextNode:
  "StateReturnSchema S v \<Longrightarrow> getProp v ''nextNode'' = JStr (stringOf (getProp v ''nextNode''))"
  by (cases v; cases "getProp v ''nextNode''") (simp_all add: StateReturnSchema_def)

text \<open>
  One iteration takes one of five ways: the unknown-node error, an error thrown by the
  node, a Continuation, a Terminal result, the invalid-output error.
\<close>

lemma traverse_unknown:
  "nodes_get nodes cur = None \<Longrightarrow>
   traverse (Suc fuel) cfg bf nodes host cb st cur = ([], Some (Inl (NodeDoesNotExist cur)))"
  by simp

lemma traverse_throw:
  "nodes_get nodes cur = Some m \<Longrightarrow> streamFlow host m st = (chunks, Inl e) \<Longrightarrow>
   traverse (Suc fuel) cfg bf nodes host cb st cur =
     (Dispatch cur st # (if cb then map Chunk chunks else []), Some (Inl (Thrown e)))"
  by simp

lemma traverse_continue:
  "nodes_get nodes cur = Some m \<Longrightarrow> streamFlow host m st = (chunks, Inr result) \<Longrightarrow>
   StateReturnSchema (orAny (stateSchema cfg)) result \<Longrightarrow>
   traverse (Suc fuel) cfg bf nodes host cb st cur =
     (Dispatch cur st # (if cb then map Chunk chunks else []) @
        NextNode (stringOf (getProp result ''nextNode'')) #
        fst (traverse fuel cfg bf nodes host cb
               (getProp result ''state'') (stringOf (getProp result ''nextNode''))),
      snd (traverse fuel cfg bf nodes host cb
               (getProp result ''state'') (stringOf (getProp result ''nextNode''))))"
  by (simp add: case_prod_beta)

lemma traverse_finish:
  "nodes_get nodes cur = Some m \<Longrightarrow> streamFlow host m st = (chunks, Inr result) \<Longrightarrow>
   \<not> StateReturnSchema (orAny (stateSchema cfg)) result \<Longrightarrow>
   orAny (outputSchema cfg) result \<Longrightarrow>
   traverse (Suc fuel) cfg bf nodes host cb st cur =
     (Dispatch cur st # (if cb then map Chunk chunks else []) @
        (case bf of None \<Rightarrow> [] | Some h \<Rightarrow> [BeforeFinish st result]),
      Some (case bf of
              None \<Rightarrow> Inr result
            | Some h \<Rightarrow> (case h st result of None \<Rightarrow> Inr result | Some e \<Rightarrow> Inl (Thrown e))))"
  by (simp split: option.splits)

lemma traverse_invalid:
  "nodes_get nodes cur = Some m \<Longrightarrow> streamFlow host m st = (chunks, Inr result) \<Longrightarrow>
   \<not> StateReturnSchema (orAny (stateSchema cfg)) result \<Longrightarrow>
   \<not> orAny (outputSchema cfg) result \<Longrightarrow>
   traverse (Suc fuel) cfg bf nodes host cb st cur =
     (Dispatch cur st # (if cb then map Chunk chunks else []), Some (Inl (InvalidOutput cur)))"
  by simp

lemma traverse_Suc_cases:
  obtains
    (unknown) "nodes_get nodes cur = None"
  | (throw) m chunks e where
      "nodes_get nodes cur = Some m" "streamFlow host m st = (chunks, Inl e)"
  | (continue) m chunks result where
      "nodes_get nodes cur = Some m" "streamFlow host m st = (chunks, Inr result)"
      "StateReturnSchema (orAny (stateSchema cfg)) result"
  | (finish) m chunks result where
      "nodes_get nodes cur = Some m" "streamFlow host m st = (chunks, Inr result)"
      "\<not> StateReturnSchema (orAny (stateSchema cfg)) result"
      "orAny (outputSchema cfg) result"
  | (invalid) m chunks result where
      "nodes_get nodes cur = Some m" "streamFlow host m st = (chunks, Inr result)"
      "\<not> StateReturnSchema (orAny (stateSchema cfg)) result"
      "\<not> orAny (outputSchema cfg) result"
proof (cases "nodes_get nodes cur")
  case None
  then show ?thesis by (rule unknown)
next
  case (Some m)
  obtain chunks outp where sf: "streamFlow host m st = (chunks, outp)"
    by (cases "streamFlow host m st")
  show ?thesis
  proof (cases outp)
    case (Inl e)
    with Some sf show ?thesis by (auto intro: throw)
  next
    case (Inr result)
    with Some sf show ?thesis
      by (cases "StateReturnSchema (orAny (stateSchema cfg)) result";
          cases "orAny (outputSchema cfg) result")
         (auto intro: continue finish invalid)
  qed
qed

declare traverse.simps(2) [simp del]

text \<open>Once an invocation has settled, more iterations change nothing.\<close>

lemma traverse_settled_mono:
  "snd (traverse fuel cfg bf nodes host cb st cur) = Some r \<Longrightarrow>
   traverse (fuel + k) cfg bf nodes host cb st cur = traverse fuel cfg bf nodes host cb st cur"
proof (induction fuel arbitrary: st cur)
  case 0
  then show ?case by simp
next
  case (Suc fuel)
  show ?case
  proof (cases rule: traverse_Suc_cases[where nodes=nodes and cur=cur and host=host and st=st and cfg=cfg])
    case unknown
    then show ?thesis by (simp add: traverse_unknown)
  next
    case (throw m chunks e)
    then show ?thesis by (simp add: traverse_throw)
  next
    case (continue m chunks result)
    with Suc show ?thesis by (simp add: traverse_continue)
  next
    case (finish m chunks result)
    then show ?thesis by (simp add: traverse_finish)
  next
    case (invalid m chunks result)
    then show ?thesis by (simp add: traverse_invalid)
  qed
qed

text \<open>An iteration whose lookup gives something dispatches it first, with the current state.\<close>

lemma traverse_first_dispatch:
  assumes "nodes_get nodes cur \<noteq> None"
  shows "\<exists>ds. dispatches (fst (traverse (Suc fuel) cfg bf nodes host cb st cur)) = (cur, st) # ds"
proof (cases rule: traverse_Suc_cases[where nodes=nodes and cur=cur and host=host
      and st=st and cfg=cfg])
  case unknown
  with assms show ?thesis by simp
next
  case (throw m chunks e)
  then show ?thesis by (simp add: traverse_throw proj_simps)
next
  case (continue m chunks result)
  then show ?thesis by (simp add: traverse_continue proj_simps)
next
  case (finish m chunks result)
  then show ?thesis by (simp add: traverse_finish proj_simps)
next
  case (invalid m chunks result)
  then show ?thesis by (simp add: traverse_invalid proj_simps)
qed

text \<open>
  Every dispatch of an invocation starts an iteration of the loop, and the rest of the
  invocation, outcome included, is the loop run from that node and state: what holds of
  the loop started at any node and state holds at every step of every traversal.
\<close>

lemma dispatch_is_iteration:
  assumes "Dispatch n s \<in> set (fst (traverse fuel cfg bf nodes host cb st cur))"
  shows "\<exists>k pre. k < fuel \<and>
           fst (traverse fuel cfg bf nodes host cb st cur) =
             pre @ fst (traverse (Suc k) cfg bf nodes host cb s n) \<and>
           snd (traverse fuel cfg bf nodes host cb st cur) =
             snd (traverse (Suc k) cfg bf nodes host cb s n)"
  using assms
proof (induction fuel arbitrary: st cur)
  case 0
  then show ?case by simp
next
  case (Suc fuel)
  have here: ?case if "n = cur" "s = st"
  proof -
    have "fst (traverse (Suc fuel) cfg bf nodes host cb st cur) =
        [] @ fst (traverse (Suc fuel) cfg bf nodes host cb s n)"
      using that by simp
    then show ?thesis
      using that by blast
  qed
  show ?case
  proof (cases rule: traverse_Suc_cases[where nodes=nodes and cur=cur and host=host
        and st=st and cfg=cfg])
    case unknown
    with Suc.prems show ?thesis by (simp add: traverse_unknown)
  next
    case (throw m chunks e)
    with Suc.prems have "n = cur \<and> s = st"
      by (auto simp add: traverse_throw split: if_splits)
    then show ?thesis using here by blast
  next
    case (continue m chunks result)
    let ?T = "traverse fuel cfg bf nodes host cb
        (getProp result ''state'') (stringOf (getProp result ''nextNode''))"
    from Suc.prems consider "n = cur \<and> s = st" | "Dispatch n s \<in> set (fst ?T)"
      by (auto simp add: traverse_continue[OF continue] split: if_splits)
    then show ?thesis
    proof cases
      case 1
      then show ?thesis using here by blast
    next
      case 2
      from Suc.IH[OF this] obtain k pre where
        k: "k < fuel" "fst ?T = pre @ fst (traverse (Suc k) cfg bf nodes host cb s n)"
           "snd ?T = snd (traverse (Suc k) cfg bf nodes host cb s n)"
        by blast
      have "fst (traverse (Suc fuel) cfg bf nodes host cb st cur) =
          (Dispatch cur st # (if cb then map Chunk chunks else []) @
            NextNode (stringOf (getProp result ''nextNode'')) # pre) @
          fst (traverse (Suc k) cfg bf nodes host cb s n)"
        using k(2) by (simp add: traverse_continue[OF continue])
      moreover have "snd (traverse (Suc fuel) cfg bf nodes host cb st cur) =
          snd (traverse (Suc k) cfg bf nodes host cb s n)"
        using k(3) by (simp add: traverse_continue[OF continue])
      moreover have "k < Suc fuel" using k(1) by simp
      ultimately show ?thesis by blast
    qed
  next
    case (finish m chunks result)
    with Suc.prems have "n = cur \<and> s = st"
      by (auto simp add: traverse_finish split: if_splits option.splits)
    then show ?thesis using here by blast
  next
    case (invalid m chunks result)
    with Suc.prems have "n = cur \<and> s = st"
      by (auto simp add: traverse_invalid split: if_splits)
    then show ?thesis using here by blast
  qed
qed



text \<open>The unknown-node error is raised for names whose lookup gives nothing, and only for those.\<close>

lemma unknown_node_fails:
  assumes "nodes k = None" and "k \<notin> set objectPrototypeKeys"
  shows "traverse (Suc fuel) cfg bf nodes host cb st k = ([], Some (Inl (NodeDoesNotExist k)))"
  using assms by (simp add: traverse_unknown nodes_get_plain)

lemma unknown_node_sound:
  assumes "snd (traverse fuel cfg bf nodes host cb st cur) = Some (Inl (NodeDoesNotExist n))"
  shows "nodes_get nodes n = None"
  using assms
proof (induction fuel arbitrary: st cur)
  case 0
  then show ?case by simp
next
  case (Suc fuel)
  show ?case
  proof (cases rule: traverse_Suc_cases[where nodes=nodes and cur=cur and host=host
        and st=st and cfg=cfg])
    case unknown
    with Suc.prems show ?thesis by (simp add: traverse_unknown)
  next
    case (throw m' chunks' e)
    with Suc.prems show ?thesis by (simp add: traverse_throw)
  next
    case (continue m' chunks' result)
    with Suc show ?thesis by (simp add: traverse_continue)
  next
    case (finish m' chunks' result)
    with Suc.prems show ?thesis by (simp add: traverse_finish split: option.splits)
  next
    case (invalid m' chunks' result)
    with Suc.prems show ?thesis by (simp add: traverse_invalid)
  qed
qed

text \<open>The hook is called on a Terminal result and on nothing else.\<close>

lemma traverse_terminal_hook:
  assumes "dispatches (fst (traverse fuel cfg bf nodes host cb st cur)) = ds @ [(n, s)]"
    and "nodes_get nodes n = Some m"
    and "streamFlow host m s = (chunks, Inr v)"
    and "\<not> StateReturnSchema (orAny (stateSchema cfg)) v"
    and "orAny (outputSchema cfg) v"
  shows "hookCalls (fst (traverse fuel cfg bf nodes host cb st cur)) =
           (case bf of None \<Rightarrow> [] | Some h \<Rightarrow> [(s, v)]) \<and>
         snd (traverse fuel cfg bf nodes host cb st cur) =
           Some (case bf of
                   None \<Rightarrow> Inr v
                 | Some h \<Rightarrow> (case h s v of None \<Rightarrow> Inr v | Some e \<Rightarrow> Inl (Thrown e)))"
  using assms(1)
proof (induction fuel arbitrary: st cur ds)
  case 0
  then show ?case by simp
next
  case (Suc fuel)
  show ?case
  proof (cases rule: traverse_Suc_cases[where nodes=nodes and cur=cur and host=host
        and st=st and cfg=cfg])
    case unknown
    with Suc.prems show ?thesis by (simp add: traverse_unknown)
  next
    case (throw m' chunks' e)
    with Suc.prems assms(2,3) show ?thesis by (auto simp add: traverse_throw proj_simps)
  next
    case (continue m' chunks' result)
    from Suc.prems have d: "(cur, st) # dispatches (fst (traverse fuel cfg bf nodes host cb
        (getProp result ''state'') (stringOf (getProp result ''nextNode'')))) = ds @ [(n, s)]"
      by (simp add: traverse_continue[OF continue] proj_simps)
    show ?thesis
    proof (cases ds)
      case Nil
      with d continue assms(2-4) show ?thesis by auto
    next
      case (Cons a ds')
      with d have "dispatches (fst (traverse fuel cfg bf nodes host cb
        (getProp result ''state'') (stringOf (getProp result ''nextNode'')))) = ds' @ [(n, s)]"
        by simp
      from Suc.IH[OF this] show ?thesis
        by (simp add: traverse_continue[OF continue] proj_simps)
    qed
  next
    case (finish m' chunks' result)
    with Suc.prems assms(2,3) show ?thesis
      by (auto simp add: traverse_finish proj_simps split: option.splits)
  next
    case (invalid m' chunks' result)
    with Suc.prems assms(2,3,5) show ?thesis by (auto simp add: traverse_invalid proj_simps)
  qed
qed

lemma traverse_hook_only_terminal:
  "hookCalls (fst (traverse fuel cfg bf nodes host cb st cur)) = [] \<or>
   (\<exists>h pre ds n s m chunks v.
      bf = Some h \<and>
      fst (traverse fuel cfg bf nodes host cb st cur) = pre @ [BeforeFinish s v] \<and>
      hookCalls (fst (traverse fuel cfg bf nodes host cb st cur)) = [(s, v)] \<and>
      dispatches (fst (traverse fuel cfg bf nodes host cb st cur)) = ds @ [(n, s)] \<and>
      nodes_get nodes n = Some m \<and> streamFlow host m s = (chunks, Inr v) \<and>
      \<not> StateReturnSchema (orAny (stateSchema cfg)) v \<and> orAny (outputSchema cfg) v)"
proof (induction fuel arbitrary: st cur)
  case 0
  then show ?case by simp
next
  case (Suc fuel)
  show ?case
  proof (cases rule: traverse_Suc_cases[where nodes=nodes and cur=cur and host=host
        and st=st and cfg=cfg])
    case unknown
    then show ?thesis by (simp add: traverse_unknown)
  next
    case (throw m' chunks' e)
    then show ?thesis by (simp add: traverse_throw proj_simps)
  next
    case (continue m' chunks' result)
    let ?T = "traverse fuel cfg bf nodes host cb
        (getProp result ''state'') (stringOf (getProp result ''nextNode''))"
    from Suc.IH[of "getProp result ''state''" "stringOf (getProp result ''nextNode'')"]
    consider "hookCalls (fst ?T) = []"
      | h pre ds n s m chunks v where "bf = Some h" "fst ?T = pre @ [BeforeFinish s v]"
        "hookCalls (fst ?T) = [(s, v)]" "dispatches (fst ?T) = ds @ [(n, s)]"
        "nodes_get nodes n = Some m" "streamFlow host m s = (chunks, Inr v)"
        "\<not> StateReturnSchema (orAny (stateSchema cfg)) v" "orAny (outputSchema cfg) v"
      by blast
    then show ?thesis
    proof cases
      case 1
      then show ?thesis by (simp add: traverse_continue[OF continue] proj_simps)
    next
      case 2
      let ?pre = "Dispatch cur st # (if cb then map Chunk chunks' else []) @
        NextNode (stringOf (getProp result ''nextNode'')) # pre"
      have "fst (traverse (Suc fuel) cfg bf nodes host cb st cur) = ?pre @ [BeforeFinish s v]"
        using 2(2) by (simp add: traverse_continue[OF continue])
      moreover have "hookCalls (fst (traverse (Suc fuel) cfg bf nodes host cb st cur)) = [(s, v)]"
        using 2(3) by (simp add: traverse_continue[OF continue] proj_simps)
      moreover have "dispatches (fst (traverse (Suc fuel) cfg bf nodes host cb st cur)) =
          ((cur, st) # ds) @ [(n, s)]"
        using 2(4) by (simp add: traverse_continue[OF continue] proj_simps)
      ultimately show ?thesis
        using 2(1,5-8) by blast
    qed
  next
    case (finish m' chunks' result)
    show ?thesis
    proof (cases bf)
      case None
      then show ?thesis by (simp add: traverse_finish[OF finish] proj_simps)
    next
      case (Some h)
      have "fst (traverse (Suc fuel) cfg bf nodes host cb st cur) =
          (Dispatch cur st # (if cb then map Chunk chunks' else [])) @ [BeforeFinish st result]"
        using Some by (simp add: traverse_finish[OF finish])
      moreover have "hookCalls (fst (traverse (Suc fuel) cfg bf nodes host cb st cur)) =
          [(st, result)]"
        using Some by (simp add: traverse_finish[OF finish] proj_simps)
      moreover have "dispatches (fst (traverse (Suc fuel) cfg bf nodes host cb st cur)) =
          [] @ [(cur, st)]"
        using Some by (simp add: traverse_finish[OF finish] proj_simps)
      ultimately show ?thesis
        using Some finish by blast
    qed
  next
    case (invalid m' chunks' result)
    then show ?thesis by (simp add: traverse_invalid proj_simps)
  qed
qed

lemma traverse_returns_terminal:
  assumes "snd (traverse fuel cfg bf nodes host cb st cur) = Some (Inr v)"
  shows "\<exists>ds n s m chunks.
      dispatches (fst (traverse fuel cfg bf nodes host cb st cur)) = ds @ [(n, s)] \<and>
      nodes_get nodes n = Some m \<and> streamFlow host m s = (chunks, Inr v) \<and>
      \<not> StateReturnSchema (orAny (stateSchema cfg)) v \<and> orAny (outputSchema cfg) v"
  using assms
proof (induction fuel arbitrary: st cur)
  case 0
  then show ?case by simp
next
  case (Suc fuel)
  show ?case
  proof (cases rule: traverse_Suc_cases[where nodes=nodes and cur=cur and host=host
        and st=st and cfg=cfg])
    case unknown
    with Suc.prems show ?thesis by (simp add: traverse_unknown)
  next
    case (throw m' chunks' e)
    with Suc.prems show ?thesis by (simp add: traverse_throw)
  next
    case (continue m' chunks' result)
    let ?T = "traverse fuel cfg bf nodes host cb
        (getProp result ''state'') (stringOf (getProp result ''nextNode''))"
    from Suc.prems have "snd ?T = Some (Inr v)"
      by (simp add: traverse_continue[OF continue])
    from Suc.IH[OF this] obtain ds n s m chunks where
      t: "dispatches (fst ?T) = ds @ [(n, s)]" "nodes_get nodes n = Some m"
         "streamFlow host m s = (chunks, Inr v)"
         "\<not> StateReturnSchema (orAny (stateSchema cfg)) v" "orAny (outputSchema cfg) v"
      by blast
    have "dispatches (fst (traverse (Suc fuel) cfg bf nodes host cb st cur)) =
        ((cur, st) # ds) @ [(n, s)]"
      using t(1) by (simp add: traverse_continue[OF continue] proj_simps)
    with t(2-5) show ?thesis by blast
  next
    case (finish m' chunks' result)
    from Suc.prems have v: "result = v"
      by (simp add: traverse_finish[OF finish] split: option.splits)
    have "dispatches (fst (traverse (Suc fuel) cfg bf nodes host cb st cur)) = [] @ [(cur, st)]"
      by (simp add: traverse_finish[OF finish] proj_simps)
    with finish v show ?thesis by blast
  next
    case (invalid m' chunks' result)
    with Suc.prems show ?thesis by (simp add: traverse_invalid)
  qed
qed

lemma traverse_never_invalid:
  assumes "outputSchema cfg = None"
  shows "snd (traverse fuel cfg bf nodes host cb st cur) \<noteq> Some (Inl (InvalidOutput n))"
proof (induction fuel arbitrary: st cur)
  case 0
  then show ?case by simp
next
  case (Suc fuel)
  show ?case
  proof (cases rule: traverse_Suc_cases[where nodes=nodes and cur=cur and host=host
        and st=st and cfg=cfg])
    case unknown
    then show ?thesis by (simp add: traverse_unknown)
  next
    case (throw m' chunks' e)
    then show ?thesis by (simp add: traverse_throw)
  next
    case (continue m' chunks' result)
    with Suc show ?thesis by (simp add: traverse_continue)
  next
    case (finish m' chunks' result)
    then show ?thesis by (simp add: traverse_finish split: option.splits)
  next
    case (invalid m' chunks' result)
    with assms show ?thesis by (simp add: z_any_def)
  qed
qed

lemma traverse_self_loop:
  assumes reg: "nodes cur = Some f"
    and loop: "\<forall>s. \<exists>chunks r. run f s = (chunks, Inr r) \<and>
                 StateReturnSchema (orAny (stateSchema cfg)) r \<and>
                 getProp r ''nextNode'' = JStr cur"
  shows "snd (traverse fuel cfg bf nodes host cb st cur) = None \<and>
         length (dispatches (fst (traverse fuel cfg bf nodes host cb st cur))) = fuel"
proof (induction fuel arbitrary: st)
  case 0
  show ?case by simp
next
  case (Suc fuel)
  from loop obtain chunks r where
    r: "run f st = (chunks, Inr r)" "StateReturnSchema (orAny (stateSchema cfg)) r"
       "getProp r ''nextNode'' = JStr cur"
    by blast
  have m: "nodes_get nodes cur = Some (Own f)"
    using reg by (rule nodes_get_own)
  have sf: "streamFlow host (Own f) st = (chunks, Inr r)"
    using r(1) by simp
  show ?case
    using Suc[of "getProp r ''state''"] r(3)
    by (simp add: traverse_continue[OF m sf r(2)] proj_simps)
qed


text \<open>The schemas with data accept what the schemas without accept.\<close>

lemma accepts_p_string: "accepts p_string v = z_string v"
  by (cases v) (simp_all add: accepts_def)

lemma accepts_p_number: "accepts p_number v = z_number v"
  by (cases v) (simp_all add: accepts_def)

lemma accepts_p_any: "accepts p_any v = z_any v"
  by (simp add: accepts_def p_any_def z_any_def)

lemma p_fields_success:
  "(p_fields shape fs \<noteq> None) =
     list_all (\<lambda>(k, s). s (getProp (JObj fs) k)) (map (\<lambda>(k, p). (k, accepts p)) shape)"
  by (induction shape) (auto simp add: accepts_def split: option.splits)

lemma accepts_p_object:
  "accepts (p_object shape) v = z_object (map (\<lambda>(k, p). (k, accepts p)) shape) v"
proof (cases v)
  case (JObj fs)
  then show ?thesis
    using p_fields_success[of shape fs] by (simp add: accepts_def)
qed (simp_all add: accepts_def)

lemma accepts_StateReturnData:
  "accepts (StateReturnData p) v = StateReturnSchema (accepts p) v"
proof -
  have "accepts p_string = z_string"
    by (rule ext) (rule accepts_p_string)
  then show ?thesis
    by (simp add: StateReturnData_def StateReturnSchema_def accepts_p_object)
qed

lemma countSchema_parser:
  "orAny (stateSchema countConfig) v = accepts (p_object [(''count'', p_number)]) v"
proof -
  have "accepts p_number = z_number"
    by (rule ext) (rule accepts_p_number)
  then show ?thesis
    by (simp add: countConfig_def accepts_p_object)
qed

section \<open>Continuation first\<close>

text \<open>
  Claim C1, as amended. At every iteration, when the result of the dispatched node is
  accepted by the Continuation schema (built from the declared state schema, or from
  \<open>z.any()\<close>), its \<open>nextNode\<close> is a string, and the rest of the invocation is the
  loop started again with the \<open>state\<close> and the \<open>nextNode\<close> read from the result
  itself, as the node returned it (not from the data of the parse): the output schema is
  not consulted, so this holds as well when it would accept the result. When the lookup of
  that next name in the registry gives something, it is dispatched next with the adopted
  state; when the lookup gives nothing, no further node is dispatched and the invocation
  fails with the unknown-node error.
\<close>

theorem continuation_first:
  assumes m: "nodes_get nodes cur = Some m"
    and sf: "streamFlow host m st = (chunks, Inr result)"
    and cont: "StateReturnSchema (orAny (stateSchema cfg)) result"
  shows "getProp result ''nextNode'' = JStr (stringOf (getProp result ''nextNode'')) \<and>
    traverse (Suc fuel) cfg bf nodes host cb st cur =
      (Dispatch cur st # (if cb then map Chunk chunks else []) @
         NextNode (stringOf (getProp result ''nextNode'')) #
         fst (traverse fuel cfg bf nodes host cb
                (getProp result ''state'') (stringOf (getProp result ''nextNode''))),
       snd (traverse fuel cfg bf nodes host cb
                (getProp result ''state'') (stringOf (getProp result ''nextNode'')))) \<and>
    (nodes_get nodes (stringOf (getProp result ''nextNode'')) \<noteq> None \<longrightarrow>
       take 2 (dispatches (fst (traverse (Suc (Suc fuel)) cfg bf nodes host cb st cur))) =
         [(cur, st), (stringOf (getProp result ''nextNode''), getProp result ''state'')]) \<and>
    (nodes_get nodes (stringOf (getProp result ''nextNode'')) = None \<longrightarrow>
       dispatches (fst (traverse (Suc (Suc fuel)) cfg bf nodes host cb st cur)) = [(cur, st)] \<and>
       snd (traverse (Suc (Suc fuel)) cfg bf nodes host cb st cur) =
         Some (Inl (NodeDoesNotExist (stringOf (getProp result ''nextNode'')))))"
proof -
  let ?next = "stringOf (getProp result ''nextNode'')"
  let ?st' = "getProp result ''state''"
  have known: "\<exists>ds. dispatches (fst (traverse (Suc fuel) cfg bf nodes host cb ?st' ?next)) =
                 (?next, ?st') # ds"
    if "nodes_get nodes ?next \<noteq> None"
    using that by (rule traverse_first_dispatch)
  show ?thesis
    using known StateReturnSchema_nextNode[OF cont]
    by (auto simp add: traverse_continue[OF m sf cont] traverse_unknown proj_simps)
qed

text \<open>
  With no schema declared, node \<open>a\<close> answers \<open>{state: null, nextNode: "b"}\<close>, which
  the output schema accepts too: \<open>b\<close> is dispatched next.
\<close>

theorem continuation_first_witness:
  "nodes_get twoNodes ''a'' = Some (Own (gotoFlow ''a'' ''b'')) \<and>
   streamFlow rejectingHost (Own (gotoFlow ''a'' ''b'')) JNull =
     ([], Inr (JObj [(''state'', JNull), (''nextNode'', JStr ''b'')])) \<and>
   StateReturnSchema (orAny (stateSchema anyConfig))
     (JObj [(''state'', JNull), (''nextNode'', JStr ''b'')]) \<and>
   orAny (outputSchema anyConfig) (JObj [(''state'', JNull), (''nextNode'', JStr ''b'')]) \<and>
   take 2 (dispatches (fst (traverse 2 anyConfig None twoNodes rejectingHost True JNull ''a''))) =
     [(''a'', JNull), (''b'', JNull)]"
proof -
  let ?r = "JObj [(''state'', JNull), (''nextNode'', JStr ''b'')]"
  have h1: "nodes_get twoNodes ''a'' = Some (Own (gotoFlow ''a'' ''b''))"
    by (simp add: twoNodes_def nodes_get_def)
  have h2: "streamFlow rejectingHost (Own (gotoFlow ''a'' ''b'')) JNull = ([], Inr ?r)"
    by (simp add: gotoFlow_def)
  have h3: "StateReturnSchema (orAny (stateSchema anyConfig)) ?r"
    by (simp add: StateReturnSchema_def anyConfig_def z_any_def)
  have h4: "orAny (outputSchema anyConfig) ?r"
    by (simp add: anyConfig_def z_any_def)
  have h5: "nodes_get twoNodes ''b'' \<noteq> None"
    by (simp add: twoNodes_def nodes_get_def)
  show ?thesis
    using h1 h2 h3 h4 h5 continuation_first[OF h1 h2 h3, of 0 None True]
    by (simp add: numeral_2_eq_2)
qed

text \<open>
  Two runs against the claim as it was stated. Node \<open>a\<close> answers with a Continuation
  that names \<open>zzz\<close>, which is not registered: \<open>zzz\<close> is never dispatched, the
  invocation fails with the unknown-node error. And in the counting graph node \<open>a\<close>
  answers with the state \<open>{count: 1, extra: 2}\<close> and the next node \<open>b\<close>: the
  parse succeeds and its data has the state \<open>{count: 1}\<close>, while \<open>b\<close> is
  dispatched with \<open>{count: 1, extra: 2}\<close>, the state of the result itself.
\<close>

theorem continuation_unknown_node_raw_state:
  "nodes_get deadEndNodes ''a'' = Some (Own (gotoFlow ''a'' ''zzz'')) \<and>
   streamFlow rejectingHost (Own (gotoFlow ''a'' ''zzz'')) JNull =
     ([], Inr (JObj [(''state'', JNull), (''nextNode'', JStr ''zzz'')])) \<and>
   StateReturnSchema (orAny (stateSchema anyConfig))
     (JObj [(''state'', JNull), (''nextNode'', JStr ''zzz'')]) \<and>
   (\<forall>k. dispatches (fst (traverse (2 + k) anyConfig None deadEndNodes rejectingHost False
           JNull ''a'')) = [(''a'', JNull)] \<and>
        snd (traverse (2 + k) anyConfig None deadEndNodes rejectingHost False JNull ''a'') =
          Some (Inl (NodeDoesNotExist ''zzz''))) \<and>
   (\<forall>v. orAny (stateSchema countConfig) v = accepts (p_object [(''count'', p_number)]) v) \<and>
   StateReturnSchema (orAny (stateSchema countConfig))
     (JObj [(''state'', JObj [(''count'', JNum 1), (''extra'', JNum 2)]),
            (''nextNode'', JStr ''b'')]) \<and>
   StateReturnData (p_object [(''count'', p_number)])
     (JObj [(''state'', JObj [(''count'', JNum 1), (''extra'', JNum 2)]),
            (''nextNode'', JStr ''b'')]) =
     Some (JObj [(''state'', JObj [(''count'', JNum 1)]), (''nextNode'', JStr ''b'')]) \<and>
   dispatches (fst (traverse 2 countConfig None stripNodes rejectingHost False
     (countState 0) ''a'')) =
     [(''a'', countState 0), (''b'', JObj [(''count'', JNum 1), (''extra'', JNum 2)])] \<and>
   snd (traverse 2 countConfig None stripNodes rejectingHost False (countState 0) ''a'') =
     Some (Inr doneValue)"
proof -
  have run2: "traverse 2 anyConfig None deadEndNodes rejectingHost False JNull ''a'' =
      ([Dispatch ''a'' JNull, NextNode ''zzz''], Some (Inl (NodeDoesNotExist ''zzz'')))"
    by (simp add: numeral_2_eq_2 traverse.simps deadEndNodes_def nodes_get_def gotoFlow_def
        StateReturnSchema_def anyConfig_def z_any_def objectPrototypeKeys_def)
  have more: "traverse (2 + k) anyConfig None deadEndNodes rejectingHost False JNull ''a'' =
      ([Dispatch ''a'' JNull, NextNode ''zzz''], Some (Inl (NodeDoesNotExist ''zzz'')))" for k
    using traverse_settled_mono[of 2 anyConfig None deadEndNodes rejectingHost False JNull "''a''"
        "Inl (NodeDoesNotExist ''zzz'')" k]
    by (simp add: run2)
  have unknown: "nodes_get deadEndNodes ''a'' = Some (Own (gotoFlow ''a'' ''zzz'')) \<and>
   streamFlow rejectingHost (Own (gotoFlow ''a'' ''zzz'')) JNull =
     ([], Inr (JObj [(''state'', JNull), (''nextNode'', JStr ''zzz'')])) \<and>
   StateReturnSchema (orAny (stateSchema anyConfig))
     (JObj [(''state'', JNull), (''nextNode'', JStr ''zzz'')]) \<and>
   (\<forall>k. dispatches (fst (traverse (2 + k) anyConfig None deadEndNodes rejectingHost False
           JNull ''a'')) = [(''a'', JNull)] \<and>
        snd (traverse (2 + k) anyConfig None deadEndNodes rejectingHost False JNull ''a'') =
          Some (Inl (NodeDoesNotExist ''zzz'')))"
    using more
    by (simp add: deadEndNodes_def nodes_get_def gotoFlow_def StateReturnSchema_def
        anyConfig_def z_any_def)
  have same: "\<forall>v. orAny (stateSchema countConfig) v = accepts (p_object [(''count'', p_number)]) v"
    by (simp add: countSchema_parser)
  have valid: "StateReturnSchema (orAny (stateSchema countConfig))
     (JObj [(''state'', JObj [(''count'', JNum 1), (''extra'', JNum 2)]),
            (''nextNode'', JStr ''b'')])"
    by (simp add: StateReturnSchema_def countConfig_def)
  have parsed: "StateReturnData (p_object [(''count'', p_number)])
     (JObj [(''state'', JObj [(''count'', JNum 1), (''extra'', JNum 2)]),
            (''nextNode'', JStr ''b'')]) =
     Some (JObj [(''state'', JObj [(''count'', JNum 1)]), (''nextNode'', JStr ''b'')])"
    by (simp add: StateReturnData_def)
  have run: "traverse 2 countConfig None stripNodes rejectingHost False (countState 0) ''a'' =
      ([Dispatch ''a'' (countState 0), NextNode ''b'',
        Dispatch ''b'' (JObj [(''count'', JNum 1), (''extra'', JNum 2)])],
       Some (Inr doneValue))"
    by (simp add: numeral_2_eq_2 traverse.simps stripNodes_def nodes_get_def constFlow_def
        StateReturnSchema_def countConfig_def doneValue_def z_literal_def)
  show ?thesis
    using unknown same valid parsed by (simp add: run)
qed

section \<open>Terminal results\<close>

text \<open>
  Claim C2, as amended. At every iteration, when the result of the dispatched node is
  rejected by the Continuation schema and accepted by the output schema (the declared one,
  or \<open>z.any()\<close>), no further node is dispatched, and the invocation resolves to exactly
  that result unless a \<open>beforeFinish\<close> hook is given and throws: then the invocation
  fails with what the hook threw.
\<close>

theorem terminal_ends_traversal:
  assumes m: "nodes_get nodes cur = Some m"
    and sf: "streamFlow host m st = (chunks, Inr result)"
    and ncont: "\<not> StateReturnSchema (orAny (stateSchema cfg)) result"
    and out: "orAny (outputSchema cfg) result"
  shows "dispatches (fst (traverse (Suc fuel) cfg bf nodes host cb st cur)) = [(cur, st)] \<and>
    snd (traverse (Suc fuel) cfg bf nodes host cb st cur) =
      Some (case bf of
              None \<Rightarrow> Inr result
            | Some h \<Rightarrow> (case h st result of None \<Rightarrow> Inr result | Some e \<Rightarrow> Inl (Thrown e)))"
  by (simp add: traverse_finish[OF m sf ncont out] proj_simps split: option.splits)

theorem terminal_ends_traversal_witness:
  "nodes_get lastNodes ''last'' = Some (Own (constFlow ''last'' [] doneValue)) \<and>
   streamFlow rejectingHost (Own (constFlow ''last'' [] doneValue)) (countState 3) =
     ([], Inr doneValue) \<and>
   \<not> StateReturnSchema (orAny (stateSchema countConfig)) doneValue \<and>
   orAny (outputSchema countConfig) doneValue \<and>
   dispatches (fst (traverse 1 countConfig None lastNodes rejectingHost False (countState 3)
     ''last'')) = [(''last'', countState 3)] \<and>
   snd (traverse 1 countConfig None lastNodes rejectingHost False (countState 3) ''last'') =
     Some (Inr doneValue)"
proof -
  have h1: "nodes_get lastNodes ''last'' = Some (Own (constFlow ''last'' [] doneValue))"
    by (simp add: lastNodes_def nodes_get_def)
  have h2: "streamFlow rejectingHost (Own (constFlow ''last'' [] doneValue)) (countState 3) =
      ([], Inr doneValue)"
    by (simp add: constFlow_def)
  have h3: "\<not> StateReturnSchema (orAny (stateSchema countConfig)) doneValue"
    by (simp add: StateReturnSchema_def countConfig_def doneValue_def)
  have h4: "orAny (outputSchema countConfig) doneValue"
    by (simp add: countConfig_def doneValue_def z_literal_def)
  show ?thesis
    using h1 h2 h3 h4 terminal_ends_traversal[OF h1 h2 h3 h4, of 0 None False]
    by simp
qed

text \<open>
  The same graph with a hook that throws: node \<open>last\<close> returns the Terminal
  \<open>{done: true}\<close>, and the invocation does not resolve to it.
\<close>

theorem terminal_with_throwing_hook:
  "nodes_get lastNodes ''last'' = Some (Own (constFlow ''last'' [] doneValue)) \<and>
   streamFlow rejectingHost (Own (constFlow ''last'' [] doneValue)) (countState 3) =
     ([], Inr doneValue) \<and>
   \<not> StateReturnSchema (orAny (stateSchema countConfig)) doneValue \<and>
   orAny (outputSchema countConfig) doneValue \<and>
   snd (executor 1 countConfig (startAt ''last'' (countState 3)) (Some throwingHook) lastNodes
          rejectingHost False JNull) = Some (Inl (Thrown (JStr ''beforeFinish failed'')))"
  by (simp add: executor_def startAt_def traverse.simps lastNodes_def nodes_get_def
      constFlow_def StateReturnSchema_def countConfig_def doneValue_def z_literal_def
      throwingHook_def)

section \<open>The order of dispatch\<close>




section \<open>The beforeFinish hook\<close>

text \<open>
  Claim C4. Take any invocation, with its trace and its outcome so far. If it returns a
  value, the hook (when one is given) has been called exactly once, with the state the
  last node was dispatched with and the value returned. If the last node dispatched gave a
  Terminal result, the hook has been called exactly once with the current state and that
  result, and the outcome is the result when the hook returned, and the value the hook
  threw when it threw: the result is then not returned. And the hook is called in no other
  case: a trace with a call of the hook ends with that call, made on a Terminal result of
  the last node dispatched.
\<close>

theorem beforeFinish_once:
  assumes run: "executor fuel cfg entry bf nodes host cb input = (evs, out)"
  shows
    "(\<forall>v. out = Some (Inr v) \<longrightarrow>
        (\<exists>ds n s. dispatches evs = ds @ [(n, s)] \<and>
           hookCalls evs = (case bf of None \<Rightarrow> [] | Some h \<Rightarrow> [(s, v)]))) \<and>
     (\<forall>ds n s m chunks v.
        dispatches evs = ds @ [(n, s)] \<and> nodes_get nodes n = Some m \<and>
        streamFlow host m s = (chunks, Inr v) \<and>
        \<not> StateReturnSchema (orAny (stateSchema cfg)) v \<and> orAny (outputSchema cfg) v \<longrightarrow>
        hookCalls evs = (case bf of None \<Rightarrow> [] | Some h \<Rightarrow> [(s, v)]) \<and>
        out = Some (case bf of
                      None \<Rightarrow> Inr v
                    | Some h \<Rightarrow> (case h s v of None \<Rightarrow> Inr v | Some e \<Rightarrow> Inl (Thrown e)))) \<and>
     (hookCalls evs = [] \<or>
      (\<exists>h pre ds n s m chunks v.
         bf = Some h \<and> evs = pre @ [BeforeFinish s v] \<and> hookCalls evs = [(s, v)] \<and>
         dispatches evs = ds @ [(n, s)] \<and> nodes_get nodes n = Some m \<and>
         streamFlow host m s = (chunks, Inr v) \<and>
         \<not> StateReturnSchema (orAny (stateSchema cfg)) v \<and> orAny (outputSchema cfg) v))"
proof (cases "entry input")
  case (Inl e)
  with run have "evs = []" "out = Some (Inl (Thrown e))"
    by (simp_all add: executor_def)
  then show ?thesis by simp
next
  case (Inr r)
  let ?T = "traverse fuel cfg bf nodes host cb (state r) (nextNode r)"
  from run Inr have evs: "evs = NextNode (nextNode r) # fst ?T" and out: "out = snd ?T"
    by (auto simp add: executor_def case_prod_beta)
  have d: "dispatches evs = dispatches (fst ?T)" and h: "hookCalls evs = hookCalls (fst ?T)"
    by (simp_all add: evs)
  have terminal: "hookCalls evs = (case bf of None \<Rightarrow> [] | Some h \<Rightarrow> [(s, v)]) \<and>
        out = Some (case bf of
                      None \<Rightarrow> Inr v
                    | Some h \<Rightarrow> (case h s v of None \<Rightarrow> Inr v | Some e \<Rightarrow> Inl (Thrown e)))"
    if "dispatches evs = ds @ [(n, s)]" "nodes_get nodes n = Some m"
      "streamFlow host m s = (chunks, Inr v)"
      "\<not> StateReturnSchema (orAny (stateSchema cfg)) v" "orAny (outputSchema cfg) v"
    for ds n s m chunks v
    using traverse_terminal_hook[of fuel cfg bf nodes host cb "state r" "nextNode r" ds n s m
        chunks v] that
    by (simp add: d h out)
  have returned: "\<exists>ds n s. dispatches evs = ds @ [(n, s)] \<and>
           hookCalls evs = (case bf of None \<Rightarrow> [] | Some h \<Rightarrow> [(s, v)])"
    if "out = Some (Inr v)" for v
  proof -
    from that have "snd ?T = Some (Inr v)" by (simp add: out)
    from traverse_returns_terminal[OF this] obtain ds n s m chunks where
      t: "dispatches (fst ?T) = ds @ [(n, s)]" "nodes_get nodes n = Some m"
         "streamFlow host m s = (chunks, Inr v)"
         "\<not> StateReturnSchema (orAny (stateSchema cfg)) v" "orAny (outputSchema cfg) v"
      by blast
    from terminal[of ds n s m chunks v] t have
      "hookCalls evs = (case bf of None \<Rightarrow> [] | Some h \<Rightarrow> [(s, v)])"
      by (simp add: d)
    with t(1) show ?thesis by (auto simp add: d)
  qed
  have only: "hookCalls evs = [] \<or>
      (\<exists>h pre ds n s m chunks v.
         bf = Some h \<and> evs = pre @ [BeforeFinish s v] \<and> hookCalls evs = [(s, v)] \<and>
         dispatches evs = ds @ [(n, s)] \<and> nodes_get nodes n = Some m \<and>
         streamFlow host m s = (chunks, Inr v) \<and>
         \<not> StateReturnSchema (orAny (stateSchema cfg)) v \<and> orAny (outputSchema cfg) v)"
  proof -
    from traverse_hook_only_terminal[of fuel cfg bf nodes host cb "state r" "nextNode r"]
    consider "hookCalls (fst ?T) = []"
      | h pre ds n s m chunks v where "bf = Some h" "fst ?T = pre @ [BeforeFinish s v]"
        "hookCalls (fst ?T) = [(s, v)]" "dispatches (fst ?T) = ds @ [(n, s)]"
        "nodes_get nodes n = Some m" "streamFlow host m s = (chunks, Inr v)"
        "\<not> StateReturnSchema (orAny (stateSchema cfg)) v" "orAny (outputSchema cfg) v"
      by blast
    then show ?thesis
    proof cases
      case 1
      then show ?thesis by (simp add: h)
    next
      case 2
      have "evs = (NextNode (nextNode r) # pre) @ [BeforeFinish s v]"
        using 2(2) by (simp add: evs)
      with 2(1,3-8) show ?thesis
        unfolding d h by blast
    qed
  qed
  show ?thesis
    using terminal returned only by blast
qed

text \<open>
  The graph whose node \<open>last\<close> returns \<open>{done: true}\<close>, with a hook that returns and
  with one that throws, and the graph whose node \<open>bad\<close> gives an invalid output.
\<close>

theorem beforeFinish_once_witness:
  "executor 1 countConfig (startAt ''last'' (countState 3)) (Some quietHook) lastNodes
     rejectingHost False JNull =
     ([NextNode ''last'', Dispatch ''last'' (countState 3),
       BeforeFinish (countState 3) doneValue], Some (Inr doneValue)) \<and>
   hookCalls [NextNode ''last'', Dispatch ''last'' (countState 3),
       BeforeFinish (countState 3) doneValue] = [(countState 3, doneValue)] \<and>
   executor 1 countConfig (startAt ''last'' (countState 3)) (Some throwingHook) lastNodes
     rejectingHost False JNull =
     ([NextNode ''last'', Dispatch ''last'' (countState 3),
       BeforeFinish (countState 3) doneValue], Some (Inl (Thrown (JStr ''beforeFinish failed'')))) \<and>
   executor 1 countConfig (startAt ''bad'' (countState 0)) (Some quietHook) badNodes
     rejectingHost False JNull =
     ([NextNode ''bad'', Dispatch ''bad'' (countState 0)], Some (Inl (InvalidOutput ''bad''))) \<and>
   hookCalls [NextNode ''bad'', Dispatch ''bad'' (countState 0)] = []"
proof -
  have run1: "executor 1 countConfig (startAt ''last'' (countState 3)) (Some quietHook) lastNodes
     rejectingHost False JNull =
     ([NextNode ''last'', Dispatch ''last'' (countState 3),
       BeforeFinish (countState 3) doneValue], Some (Inr doneValue))"
    by (simp add: executor_def startAt_def traverse.simps lastNodes_def nodes_get_def
      constFlow_def StateReturnSchema_def countConfig_def doneValue_def z_literal_def
      quietHook_def)
  have run2: "executor 1 countConfig (startAt ''last'' (countState 3)) (Some throwingHook)
     lastNodes rejectingHost False JNull =
     ([NextNode ''last'', Dispatch ''last'' (countState 3),
       BeforeFinish (countState 3) doneValue], Some (Inl (Thrown (JStr ''beforeFinish failed''))))"
    by (simp add: executor_def startAt_def traverse.simps lastNodes_def nodes_get_def
      constFlow_def StateReturnSchema_def countConfig_def doneValue_def z_literal_def
      throwingHook_def)
  have run3: "executor 1 countConfig (startAt ''bad'' (countState 0)) (Some quietHook) badNodes
     rejectingHost False JNull =
     ([NextNode ''bad'', Dispatch ''bad'' (countState 0)], Some (Inl (InvalidOutput ''bad'')))"
    by (simp add: executor_def startAt_def traverse.simps badNodes_def nodes_get_def
      constFlow_def StateReturnSchema_def countConfig_def countState_def z_literal_def)
  from beforeFinish_once[OF run1] have
    "\<exists>ds n s. dispatches [NextNode ''last'', Dispatch ''last'' (countState 3),
         BeforeFinish (countState 3) doneValue] = ds @ [(n, s)] \<and>
       hookCalls [NextNode ''last'', Dispatch ''last'' (countState 3),
         BeforeFinish (countState 3) doneValue] = [(s, doneValue)]"
    by simp
  then have "hookCalls [NextNode ''last'', Dispatch ''last'' (countState 3),
         BeforeFinish (countState 3) doneValue] = [(countState 3, doneValue)]"
    by auto
  then show ?thesis
    using run1 run2 run3 by simp
qed

section \<open>Invalid output\<close>

text \<open>
  Claim C5. At every iteration of the loop, whatever the state and the current node: when
  the result of the dispatched node is accepted neither by the Continuation schema nor by
  the output schema, the invocation fails with the invalid-output error for that node,
  whose message contains the node's name; the node was the only one dispatched from this
  iteration on, and the hook is not called.
\<close>

theorem invalid_output_error:
  assumes "nodes_get nodes cur = Some m"
    and "streamFlow host m st = (chunks, Inr result)"
    and "\<not> FlowOutputSchema (orAny (stateSchema cfg)) (orAny (outputSchema cfg)) result"
  shows "snd (traverse (Suc fuel) cfg bf nodes host cb st cur) = Some (Inl (InvalidOutput cur)) \<and>
         sublist cur (message (InvalidOutput cur)) \<and>
         dispatches (fst (traverse (Suc fuel) cfg bf nodes host cb st cur)) = [(cur, st)] \<and>
         hookCalls (fst (traverse (Suc fuel) cfg bf nodes host cb st cur)) = []"
proof -
  from assms(3) have neither:
    "\<not> StateReturnSchema (orAny (stateSchema cfg)) result" "\<not> orAny (outputSchema cfg) result"
    by (simp_all add: FlowOutputSchema_def)
  have msg: "sublist cur (message (InvalidOutput cur))"
    unfolding message.simps by (rule sublist_appendI)
  show ?thesis
    using msg by (simp add: traverse_invalid[OF assms(1,2) neither] proj_simps)
qed

text \<open>
  The scenario of the specification: node \<open>bad\<close> returns \<open>{foo: 1}\<close> in the counting
  graph, and the invocation fails with the invalid-output error naming \<open>bad\<close>.
\<close>

theorem invalid_output_error_witness:
  "snd (executor 1 countConfig (startAt ''bad'' (countState 0)) (Some throwingHook) badNodes
          rejectingHost True JNull) = Some (Inl (InvalidOutput ''bad'')) \<and>
   sublist ''bad'' (message (InvalidOutput ''bad'')) \<and>
   dispatches (fst (executor 1 countConfig (startAt ''bad'' (countState 0)) (Some throwingHook)
          badNodes rejectingHost True JNull)) = [(''bad'', countState 0)] \<and>
   hookCalls (fst (executor 1 countConfig (startAt ''bad'' (countState 0)) (Some throwingHook)
          badNodes rejectingHost True JNull)) = []"
proof -
  have h1: "nodes_get badNodes ''bad'' = Some (Own (constFlow ''bad'' [] (JObj [(''foo'', JNum 1)])))"
    by (simp add: badNodes_def nodes_get_def)
  have h2: "streamFlow rejectingHost (Own (constFlow ''bad'' [] (JObj [(''foo'', JNum 1)])))
              (countState 0) = ([], Inr (JObj [(''foo'', JNum 1)]))"
    by (simp add: constFlow_def)
  have h3: "\<not> FlowOutputSchema (orAny (stateSchema countConfig)) (orAny (outputSchema countConfig))
              (JObj [(''foo'', JNum 1)])"
    by (simp add: FlowOutputSchema_def StateReturnSchema_def countConfig_def z_literal_def)
  show ?thesis
    using invalid_output_error[OF h1 h2 h3, of 0 "Some throwingHook" True]
    by (simp add: executor_def startAt_def case_prod_beta)
qed

section \<open>Names the registry does not hold\<close>

text \<open>
  Claim C6, evaluated where the code departs from it. No node is registered, and the
  entrypoint names \<open>constructor\<close>. The lookup \<open>nodes["constructor"]\<close> finds the
  member inherited from \<open>Object.prototype\<close>, so the guard against unknown nodes does not
  fire: whatever the host runtime, the built-in is handed to \<open>streamFlow\<close> with the
  state, and the outcome is never the unknown-node error for \<open>constructor\<close>. With a
  host that rejects what is not a flow, the invocation fails with the host's error.
\<close>

theorem inherited_name_is_dispatched:
  "(Map.empty :: registry) ''constructor'' = None \<and>
   nodes_get Map.empty ''constructor'' = Some (Builtin ''constructor'') \<and>
   (\<exists>ds. dispatches (fst (executor (Suc fuel) cfg (startAt ''constructor'' s0) bf Map.empty
            host cb input)) = (''constructor'', s0) # ds) \<and>
   snd (executor (Suc fuel) cfg (startAt ''constructor'' s0) bf Map.empty host cb input) \<noteq>
     Some (Inl (NodeDoesNotExist ''constructor'')) \<and>
   executor 1 cfg (startAt ''constructor'' s0) bf Map.empty rejectingHost cb input =
     ([NextNode ''constructor'', Dispatch ''constructor'' s0],
      Some (Inl (Thrown (JStr ''TypeError''))))"
proof -
  have g: "nodes_get Map.empty ''constructor'' = Some (Builtin ''constructor'')"
    by (simp add: nodes_get_def objectPrototypeKeys_def)
  then have known: "nodes_get Map.empty ''constructor'' \<noteq> None"
    by simp
  have first: "\<exists>ds. dispatches (fst (executor (Suc fuel) cfg (startAt ''constructor'' s0) bf
      Map.empty host cb input)) = (''constructor'', s0) # ds"
    using traverse_first_dispatch[OF known, of fuel cfg bf host cb s0]
    by (simp add: executor_def startAt_def case_prod_beta)
  have "snd (traverse (Suc fuel) cfg bf Map.empty host cb s0 ''constructor'') \<noteq>
      Some (Inl (NodeDoesNotExist ''constructor''))"
    using unknown_node_sound[of "Suc fuel" cfg bf Map.empty host cb s0 "''constructor''"
        "''constructor''"] known
    by blast
  then have out: "snd (executor (Suc fuel) cfg (startAt ''constructor'' s0) bf Map.empty
      host cb input) \<noteq> Some (Inl (NodeDoesNotExist ''constructor''))"
    by (simp add: executor_def startAt_def case_prod_beta)
  have "streamFlow rejectingHost (Builtin ''constructor'') s0 = ([], Inl (JStr ''TypeError''))"
    by (simp add: rejectingHost_def)
  from traverse_throw[OF g this, of 0 cfg bf cb]
  have "executor 1 cfg (startAt ''constructor'' s0) bf Map.empty rejectingHost cb input =
     ([NextNode ''constructor'', Dispatch ''constructor'' s0],
      Some (Inl (Thrown (JStr ''TypeError''))))"
    by (simp add: executor_def startAt_def)
  with g first out show ?thesis by simp
qed

section \<open>Registration\<close>

text \<open>
  \<open>removeNode\<close> throws for every registered name, returns quietly for a name that is
  neither registered nor inherited, and never changes the registry.
\<close>

lemma removeNode_registered:
  "nodes k = Some f \<Longrightarrow> removeNode k nodes = Inl (NodeAlreadyExists k)"
  by (simp add: removeNode_def nodes_get_def)

lemma removeNode_absent:
  "nodes k = None \<Longrightarrow> k \<notin> set objectPrototypeKeys \<Longrightarrow> removeNode k nodes = Inr nodes"
  by (simp add: removeNode_def nodes_get_def fun_upd_idem)

lemma removeNode_keeps_registry:
  "removeNode k nodes = Inr nodes' \<Longrightarrow> nodes' = nodes"
  by (auto simp add: removeNode_def nodes_get_def split: if_splits option.splits)

text \<open>
  Claim C7, evaluated where the code departs from it. Nothing is registered under
  \<open>toString\<close>, and \<open>removeNode("toString")\<close> throws the "already exists" error all
  the same, the lookup having found the member inherited from \<open>Object.prototype\<close>.
\<close>

theorem removeNode_inherited_name:
  "(Map.empty :: registry) ''toString'' = None \<and>
   removeNode ''toString'' Map.empty = Inl (NodeAlreadyExists ''toString'')"
  by (simp add: removeNode_def nodes_get_def objectPrototypeKeys_def)

text \<open>
  For a name that is neither registered nor inherited, \<open>addNode\<close> registers the flow
  under its name, and a second \<open>addNode\<close> of a flow of that name throws the duplicate
  error.
\<close>

lemma addNode_fresh:
  "nodes (flow.name f) = None \<Longrightarrow> flow.name f \<notin> set objectPrototypeKeys \<Longrightarrow>
   addNode f nodes = Inr (nodes(flow.name f \<mapsto> f))"
  by (simp add: addNode_def nodes_get_def)

lemma addNode_registered:
  "nodes (flow.name f) = Some g \<Longrightarrow> addNode f nodes = Inl (NodeAlreadyExists (flow.name f))"
  by (simp add: addNode_def nodes_get_def)

lemma addNode_twice:
  assumes "nodes (flow.name f) = None" and "flow.name f \<notin> set objectPrototypeKeys"
    and "flow.name g = flow.name f"
  shows "\<exists>nodes'. addNode f nodes = Inr nodes' \<and> nodes' (flow.name f) = Some f \<and>
           addNode g nodes' = Inl (NodeAlreadyExists (flow.name f))"
  using assms by (simp add: addNode_def nodes_get_def)

text \<open>
  Claim C8, evaluated where the code departs from it. In a registry that holds nothing,
  the first \<open>addNode\<close> of a flow named \<open>toString\<close> throws the "already exists" error:
  the lookup has found the member inherited from \<open>Object.prototype\<close>.
\<close>

theorem addNode_inherited_name:
  "(Map.empty :: registry) ''toString'' = None \<and>
   flow.name (constFlow ''toString'' [] JNull) = ''toString'' \<and>
   addNode (constFlow ''toString'' [] JNull) Map.empty = Inl (NodeAlreadyExists ''toString'')"
  by (simp add: addNode_def nodes_get_def objectPrototypeKeys_def constFlow_def)

section \<open>No bound on the traversal\<close>

text \<open>
  Claim C9. The loop has no step or cycle limit. In the graph whose only node \<open>loop\<close>
  always answers with a Continuation naming itself, the invocation has not settled after
  any number of iterations, and it has dispatched the node once per iteration: the
  traversal does not terminate, which is why the loop is modelled with a count of the
  iterations left.
\<close>

theorem unbounded_traversal: 
  "snd (executor fuel anyConfig (startAt ''loop'' s0) bf selfLoopNodes host cb input) = None \<and>
   length (dispatches (fst (executor fuel anyConfig (startAt ''loop'' s0) bf selfLoopNodes
     host cb input))) = fuel"
proof -
  have reg: "selfLoopNodes ''loop'' = Some (gotoFlow ''loop'' ''loop'')"
    by (simp add: selfLoopNodes_def)
  have loop: "\<forall>s. \<exists>chunks r. run (gotoFlow ''loop'' ''loop'') s = (chunks, Inr r) \<and>
                 StateReturnSchema (orAny (stateSchema anyConfig)) r \<and>
                 getProp r ''nextNode'' = JStr ''loop''"
    by (simp add: gotoFlow_def StateReturnSchema_def anyConfig_def z_any_def)
  show ?thesis
    using traverse_self_loop[where nodes = selfLoopNodes and cur = "''loop''", OF reg loop,
        of fuel bf host cb s0]
    by (simp add: executor_def startAt_def case_prod_beta)
qed

section \<open>No output schema\<close>

text \<open>
  Claim C10, as amended. When the configuration declares no output schema, no invocation
  fails with the invalid-output error, and at every iteration a result that the
  Continuation schema rejects is taken as a Terminal: the hook, if given, is called with
  it, and it is returned unless the hook throws; then the invocation fails with what the
  hook threw.
\<close>

theorem no_outputSchema_never_invalid:
  assumes none: "outputSchema cfg = None"
  shows
    "(\<forall>n. snd (executor fuel cfg entry bf nodes host cb input) \<noteq> Some (Inl (InvalidOutput n))) \<and>
     (\<forall>m chunks result.
        nodes_get nodes cur = Some m \<and> streamFlow host m st = (chunks, Inr result) \<and>
        \<not> StateReturnSchema (orAny (stateSchema cfg)) result \<longrightarrow>
        traverse (Suc fuel) cfg bf nodes host cb st cur =
          (Dispatch cur st # (if cb then map Chunk chunks else []) @
             (case bf of None \<Rightarrow> [] | Some h \<Rightarrow> [BeforeFinish st result]),
           Some (case bf of
                   None \<Rightarrow> Inr result
                 | Some h \<Rightarrow>
                     (case h st result of None \<Rightarrow> Inr result | Some e \<Rightarrow> Inl (Thrown e)))))"
proof -
  have "snd (executor fuel cfg entry bf nodes host cb input) \<noteq> Some (Inl (InvalidOutput n))" for n
    using traverse_never_invalid[OF none, of fuel bf nodes host cb _ _ n]
    by (simp add: executor_def case_prod_beta split: sum.splits)
  moreover have "orAny (outputSchema cfg) result" for result
    by (simp add: none z_any_def)
  ultimately show ?thesis
    by (auto simp add: traverse_finish)
qed

theorem no_outputSchema_never_invalid_witness:
  "outputSchema anyConfig = None \<and>
   nodes_get badNodes ''bad'' = Some (Own (constFlow ''bad'' [] (JObj [(''foo'', JNum 1)]))) \<and>
   \<not> StateReturnSchema (orAny (stateSchema anyConfig)) (JObj [(''foo'', JNum 1)]) \<and>
   traverse 1 anyConfig (Some quietHook) badNodes rejectingHost False JNull ''bad'' =
     ([Dispatch ''bad'' JNull, BeforeFinish JNull (JObj [(''foo'', JNum 1)])],
      Some (Inr (JObj [(''foo'', JNum 1)])))"
proof -
  have h0: "outputSchema anyConfig = None"
    by (simp add: anyConfig_def)
  have h1: "nodes_get badNodes ''bad'' = Some (Own (constFlow ''bad'' [] (JObj [(''foo'', JNum 1)])))"
    by (simp add: badNodes_def nodes_get_def)
  have h2: "streamFlow rejectingHost (Own (constFlow ''bad'' [] (JObj [(''foo'', JNum 1)]))) JNull =
      ([], Inr (JObj [(''foo'', JNum 1)]))"
    by (simp add: constFlow_def)
  have h3: "\<not> StateReturnSchema (orAny (stateSchema anyConfig)) (JObj [(''foo'', JNum 1)])"
    by (simp add: StateReturnSchema_def anyConfig_def)
  show ?thesis
    using h0 h1 h2 h3
      no_outputSchema_never_invalid[OF h0, of 0 "startAt ''bad'' JNull" "Some quietHook" badNodes rejectingHost False JNull
        "''bad''" JNull]
    by (simp add: quietHook_def)
qed

text \<open>
  No schema is declared, node \<open>bad\<close> returns \<open>{foo: 1}\<close>, which the Continuation
  schema rejects, and the hook throws: the result is taken as a Terminal and is not
  returned.
\<close>

theorem no_outputSchema_throwing_hook:
  "outputSchema anyConfig = None \<and>
   nodes_get badNodes ''bad'' = Some (Own (constFlow ''bad'' [] (JObj [(''foo'', JNum 1)]))) \<and>
   streamFlow rejectingHost (Own (constFlow ''bad'' [] (JObj [(''foo'', JNum 1)]))) JNull =
     ([], Inr (JObj [(''foo'', JNum 1)])) \<and>
   \<not> StateReturnSchema (orAny (stateSchema anyConfig)) (JObj [(''foo'', JNum 1)]) \<and>
   executor 1 anyConfig (startAt ''bad'' JNull) (Some throwingHook) badNodes rejectingHost
     False JNull =
     ([NextNode ''bad'', Dispatch ''bad'' JNull, BeforeFinish JNull (JObj [(''foo'', JNum 1)])],
      Some (Inl (Thrown (JStr ''beforeFinish failed''))))"
  by (simp add: executor_def startAt_def traverse.simps badNodes_def nodes_get_def
      constFlow_def StateReturnSchema_def anyConfig_def z_any_def throwingHook_def)

end
